theory Spec2Isabelle
  imports Main "HOL-Library.Multiset"
begin

section \<open>Python strings\<close>

text \<open>
  A Python \<open>str\<close> is modelled as a HOL \<open>string\<close>; a character is a code point below 256.
  \<open>is_space\<close> holds for the code points below 256 that \<open>str.isspace\<close> accepts, which are
  the characters \<open>str.strip()\<close> removes: TAB, LF, VT, FF, CR, FS, GS, RS, US, SPACE, NEL, NBSP.
\<close>

definition is_space :: "char \<Rightarrow> bool" where
  "is_space c = (of_char c \<in> {9, 10, 11, 12, 13, 28, 29, 30, 31, 32, 133, 160 :: nat})"

text \<open>\<open>s.strip()\<close>: drop the leading and the trailing whitespace.\<close>

definition strip :: "string \<Rightarrow> string" where
  "strip s = rev (dropWhile is_space (rev (dropWhile is_space s)))"

text \<open>
  \<open>s.split(",")\<close>: the fragments between commas, of which there is always at least one
  (\<open>"".split(",") == [""]\<close>). \<open>split_from cur s\<close> carries the fragment read so far.
\<close>

fun split_from :: "string \<Rightarrow> string \<Rightarrow> string list" where
  "split_from cur [] = [cur]"
| "split_from cur (c # cs) =
     (if c = CHR '','' then cur # split_from [] cs else split_from (cur @ [c]) cs)"

definition split_comma :: "string \<Rightarrow> string list" where
  "split_comma s = split_from [] s"

text \<open>\<open>r.startswith('[')\<close> and \<open>r.endswith(']')\<close>; both are false on the empty string.\<close>

definition startswith_open :: "string \<Rightarrow> bool" where
  "startswith_open r = (case r of [] \<Rightarrow> False | c # _ \<Rightarrow> c = CHR ''['')"

definition endswith_close :: "string \<Rightarrow> bool" where
  "endswith_close r = (r \<noteq> [] \<and> last r = CHR '']'')"

text \<open>The slices \<open>r[1:]\<close> and \<open>r[:-1]\<close> are \<open>tl r\<close> and \<open>butlast r\<close>; both map \<open>""\<close> to \<open>""\<close>.\<close>

section \<open>Errors\<close>

text \<open>The exceptions the modelled functions can raise.\<close>

datatype error = AttributeError | IndexError | KeyError | TypeError

section \<open>The role list parser\<close>

text \<open>
  \<open>_parse_roles\<close> builds a list \<open>_roles\<close> of node lists and mutates the node list \<open>_node\<close>
  after it may already have been appended to \<open>_roles\<close>, so the node lists live in a store:
  \<open>store\<close> holds the list objects in the order of their creation (the address of an object is
  its index) and \<open>refs\<close> is \<open>_roles\<close>, a list of addresses.
\<close>

record roles_obj =
  store :: "string list list"
  refs :: "nat list"

text \<open>The value Python sees through the references: what \<open>==\<close> compares and what is printed.\<close>

definition view :: "roles_obj \<Rightarrow> string list list" where
  "view r = map (\<lambda>a. store r ! a) (refs r)"

text \<open>The loop state: the role list under construction and the variable \<open>_node\<close> (None or an address).\<close>

record pstate =
  obj :: roles_obj
  node :: "nat option"

text \<open>\<open>_node = []\<close>: a fresh list object, to which \<open>_node\<close> now refers.\<close>

definition new_node :: "pstate \<Rightarrow> pstate" where
  "new_node st =
     \<lparr>obj = (obj st)\<lparr>store := store (obj st) @ [[]]\<rparr>, node = Some (length (store (obj st)))\<rparr>"

text \<open>\<open>_node.append(x)\<close>: AttributeError when \<open>_node\<close> is None.\<close>

definition node_append :: "string \<Rightarrow> pstate \<Rightarrow> error + pstate" where
  "node_append x st =
     (case node st of
        None \<Rightarrow> Inl AttributeError
      | Some a \<Rightarrow>
          Inr (st\<lparr>obj := (obj st)\<lparr>store := (store (obj st))[a := store (obj st) ! a @ [x]]\<rparr>\<rparr>))"

text \<open>\<open>_roles.append(_node)\<close>; only reached after a successful \<open>_node.append\<close>.\<close>

definition roles_append :: "pstate \<Rightarrow> error + pstate" where
  "roles_append st =
     (case node st of
        None \<Rightarrow> Inl AttributeError
      | Some a \<Rightarrow> Inr (st\<lparr>obj := (obj st)\<lparr>refs := refs (obj st) @ [a]\<rparr>\<rparr>))"

text \<open>One iteration of the loop over the fragments, on the fragment as split (it is stripped here).\<close>

definition parse_step :: "string \<Rightarrow> pstate \<Rightarrow> error + pstate" where
  "parse_step frag st =
     (let r = strip (strip frag) in
      if startswith_open r then
        (if endswith_close r then
           (case node_append (tl (butlast r)) (new_node st) of
              Inl e \<Rightarrow> Inl e
            | Inr st' \<Rightarrow> roles_append st')
         else node_append (tl r) (new_node st))
      else if endswith_close r then
        (case node_append (butlast r) st of
           Inl e \<Rightarrow> Inl e
         | Inr st' \<Rightarrow> roles_append st')
      else node_append r st)"

fun parse_loop :: "string list \<Rightarrow> pstate \<Rightarrow> error + pstate" where
  "parse_loop [] st = Inr st"
| "parse_loop (f # fs) st =
     (case parse_step f st of Inl e \<Rightarrow> Inl e | Inr st' \<Rightarrow> parse_loop fs st')"

definition init_pstate :: pstate where
  "init_pstate = \<lparr>obj = \<lparr>store = [], refs = []\<rparr>, node = None\<rparr>"

text \<open>\<open>_parse_roles(roles)\<close>.\<close>

definition parse_roles :: "string \<Rightarrow> error + roles_obj" where
  "parse_roles roles =
     (case parse_loop (split_comma roles) init_pstate of
        Inl e \<Rightarrow> Inl e
      | Inr st \<Rightarrow> Inr (obj st))"

text \<open>The result as a Python value.\<close>

definition parse_view :: "string \<Rightarrow> error + string list list" where
  "parse_view roles = map_sum id view (parse_roles roles)"

section \<open>Settings derivation\<close>

text \<open>The values stored in the settings dictionary.\<close>

datatype pyval =
  VStr string
| VInt int
| VBool bool
| VStrList "string list"
| VRoles roles_obj

type_synonym settings_dict = "string \<rightharpoonup> pyval"

text \<open>
  The keyword arguments of \<open>_gen_settings_dict\<close>; \<open>None\<close> is Python's \<open>None\<close>, the value of an
  option that was not given.
\<close>

record kwargs =
  roles :: "string option"
  os :: "string option"
  num_disks :: "int option"
  single_node :: bool
  libvirt_host :: "string option"
  libvirt_user :: "string option"
  libvirt_storage_pool :: "string option"
  deepsea_cli :: "bool option"
  stop_before_deepsea_stage :: "int option"
  deepsea_repo :: "string option"
  deepsea_branch :: "string option"
  repo :: "string list option"
  cpus :: "int option"
  ram :: "int option"
  disk_size :: "int option"
  vagrant_box :: "string option"

text \<open>Python truthiness of an optional string, integer and sequence.\<close>

definition truthy_str :: "string option \<Rightarrow> bool" where
  "truthy_str v = (case v of None \<Rightarrow> False | Some s \<Rightarrow> s \<noteq> [])"

definition truthy_int :: "int option \<Rightarrow> bool" where
  "truthy_int v = (case v of None \<Rightarrow> False | Some n \<Rightarrow> n \<noteq> 0)"

definition truthy_list :: "string list option \<Rightarrow> bool" where
  "truthy_list v = (case v of None \<Rightarrow> False | Some xs \<Rightarrow> xs \<noteq> [])"

text \<open>\<open>if x: settings_dict[k] = x\<close>, for a string, an integer and the repo sequence.\<close>

definition put_str :: "string \<Rightarrow> string option \<Rightarrow> settings_dict \<Rightarrow> settings_dict" where
  "put_str k v d = (case v of None \<Rightarrow> d | Some s \<Rightarrow> if s \<noteq> [] then d(k \<mapsto> VStr s) else d)"

definition put_int :: "string \<Rightarrow> int option \<Rightarrow> settings_dict \<Rightarrow> settings_dict" where
  "put_int k v d = (case v of None \<Rightarrow> d | Some n \<Rightarrow> if n \<noteq> 0 then d(k \<mapsto> VInt n) else d)"

definition put_list :: "string \<Rightarrow> string list option \<Rightarrow> settings_dict \<Rightarrow> settings_dict" where
  "put_list k v d = (case v of None \<Rightarrow> d | Some xs \<Rightarrow> if xs \<noteq> [] then d(k \<mapsto> VStrList xs) else d)"

text \<open>\<open>if x is not None: settings_dict[k] = x\<close>.\<close>

definition put_some_str :: "string \<Rightarrow> string option \<Rightarrow> settings_dict \<Rightarrow> settings_dict" where
  "put_some_str k v d = (case v of None \<Rightarrow> d | Some s \<Rightarrow> d(k \<mapsto> VStr s))"

definition put_some_int :: "string \<Rightarrow> int option \<Rightarrow> settings_dict \<Rightarrow> settings_dict" where
  "put_some_int k v d = (case v of None \<Rightarrow> d | Some n \<Rightarrow> d(k \<mapsto> VInt n))"

definition put_some_bool :: "string \<Rightarrow> bool option \<Rightarrow> settings_dict \<Rightarrow> settings_dict" where
  "put_some_bool k v d = (case v of None \<Rightarrow> d | Some b \<Rightarrow> d(k \<mapsto> VBool b))"

text \<open>The list literal of the single-node branch: one fresh node list.\<close>

definition single_node_roles :: roles_obj where
  "single_node_roles =
     \<lparr>store = [[''admin'', ''storage'', ''mon'', ''mgr'', ''prometheus'', ''grafana'', ''mds'',
                ''igw'', ''rgw'', ''ganesha'']],
      refs = [0]\<rparr>"

text \<open>The first statement of \<open>_gen_settings_dict\<close>: the \<open>roles\<close> key, from the empty dictionary.\<close>

definition gen_roles :: "kwargs \<Rightarrow> error + settings_dict" where
  "gen_roles kw =
     (if \<not> single_node kw \<and> truthy_str (roles kw) then
        (case parse_roles (case roles kw of None \<Rightarrow> [] | Some t \<Rightarrow> t) of
           Inl e \<Rightarrow> Inl e
         | Inr r \<Rightarrow> Inr (Map.empty(''roles'' \<mapsto> VRoles r)))
      else if single_node kw then Inr (Map.empty(''roles'' \<mapsto> VRoles single_node_roles))
      else Inr Map.empty)"

text \<open>The \<open>num_disks\<close> statement.\<close>

definition gen_num_disks :: "kwargs \<Rightarrow> settings_dict \<Rightarrow> settings_dict" where
  "gen_num_disks kw d =
     (case num_disks kw of
        Some n \<Rightarrow>
          if n \<noteq> 0 then
            d(''num_disks'' \<mapsto> VInt (if single_node kw \<and> n < 3 then 3 else n))
          else if single_node kw then d(''num_disks'' \<mapsto> VInt 3)
          else d
      | None \<Rightarrow> if single_node kw then d(''num_disks'' \<mapsto> VInt 3) else d)"

text \<open>The statements after \<open>roles\<close>, in the order of the source.\<close>

definition gen_rest :: "string option \<Rightarrow> kwargs \<Rightarrow> settings_dict \<Rightarrow> settings_dict" where
  "gen_rest version kw d0 =
     (let d1 = put_str ''os'' (os kw) d0;
          d2 = gen_num_disks kw d1;
          d3 = put_int ''cpus'' (cpus kw) d2;
          d4 = put_int ''ram'' (ram kw) d3;
          d5 = put_int ''disk_size'' (disk_size kw) d4;
          d6 = put_str ''libvirt_host'' (libvirt_host kw) d5;
          d7 = put_str ''libvirt_user'' (libvirt_user kw) d6;
          d8 = put_str ''libvirt_storage_pool'' (libvirt_storage_pool kw) d7;
          d9 = put_some_bool ''use_deepsea_cli'' (deepsea_cli kw) d8;
          d10 = put_some_int ''stop_before_stage'' (stop_before_deepsea_stage kw) d9;
          d11 = put_str ''deepsea_git_repo'' (deepsea_repo kw) d10;
          d12 = put_str ''deepsea_git_branch'' (deepsea_branch kw) d11;
          d13 = put_some_str ''version'' version d12;
          d14 = put_list ''repos'' (repo kw) d13
      in put_str ''vagrant_box'' (vagrant_box kw) d14)"

text \<open>\<open>_gen_settings_dict(version, **kwargs)\<close>; it raises what \<open>_parse_roles\<close> raises.\<close>

definition gen_settings_dict :: "string option \<Rightarrow> kwargs \<Rightarrow> error + settings_dict" where
  "gen_settings_dict version kw =
     (case gen_roles kw of
        Inl e \<Rightarrow> Inl e
      | Inr d0 \<Rightarrow> Inr (gen_rest version kw d0))"

text \<open>
  The command \<open>ses5\<close> up to its call of \<open>_create_command\<close>: the result is the settings
  dictionary handed over. \<open>settings_dict['roles'][0].append("openattic")\<close> raises IndexError
  on an empty role list and changes the list object that the first reference points to.
\<close>

definition append_first :: "string \<Rightarrow> roles_obj \<Rightarrow> error + roles_obj" where
  "append_first x r =
     (case refs r of
        [] \<Rightarrow> Inl IndexError
      | a # _ \<Rightarrow> Inr (r\<lparr>store := (store r)[a := store r ! a @ [x]]\<rparr>))"

definition ses5 :: "kwargs \<Rightarrow> error + settings_dict" where
  "ses5 kw =
     (case gen_settings_dict (Some ''ses5'') kw of
        Inl e \<Rightarrow> Inl e
      | Inr d \<Rightarrow>
          (case d ''roles'' of
             None \<Rightarrow> Inr d
           | Some (VRoles r) \<Rightarrow>
               (case append_first ''openattic'' r of
                  Inl e \<Rightarrow> Inl e
                | Inr r' \<Rightarrow> Inr (d(''roles'' \<mapsto> VRoles r')))
           | Some _ \<Rightarrow> Inl TypeError))"

section \<open>Cluster status\<close>

text \<open>
  \<open>dep.nodes\<close> is a dictionary from node name to node object, of which \<open>_status\<close> reads the
  field \<open>status\<close>, a string: an association list with distinct keys, in the dictionary's
  iteration order.
\<close>

type_synonym nodes = "(string \<times> string) list"

text \<open>The body of the loop of \<open>_status\<close>: the node's status \<open>n\<close> and the running value \<open>s\<close>.\<close>

definition status_step :: "string \<Rightarrow> string \<Rightarrow> string" where
  "status_step n s =
     (if n = ''running'' \<and> s = ''not deployed'' then ''partially deployed''
      else if n = ''stopped'' \<and> s = ''running'' then ''partially running''
      else if n = ''suspended'' \<and> s = ''running'' then ''partially running''
      else if n = ''running'' \<and> s = ''stopped'' then ''partially running''
      else if n = ''running'' \<and> s = ''suspended'' then ''partially running''
      else s)"

fun status_loop :: "string list \<Rightarrow> string \<Rightarrow> string" where
  "status_loop [] s = s"
| "status_loop (n # ns) s = status_loop ns (status_step n s)"

text \<open>\<open>_status(nodes)\<close>; \<open>nodes['admin']\<close> raises KeyError when there is no such node.\<close>

definition status :: "nodes \<Rightarrow> error + string" where
  "status nodes =
     (case map_of nodes ''admin'' of
        None \<Rightarrow> Inl KeyError
      | Some s \<Rightarrow> Inr (status_loop (map snd nodes) s))"

text \<open>
  What a derivation stores under a key: the error when it raised, \<open>None\<close> when it returned a
  dictionary without the key, the value otherwise.
\<close>

definition key_of :: "string \<Rightarrow> error + settings_dict \<Rightarrow> error + pyval option" where
  "key_of k res = map_sum id (\<lambda>d. d k) res"

text \<open>The keyword arguments when no option is given on the command line.\<close>

definition default_kwargs :: kwargs where
  "default_kwargs =
     \<lparr>roles = None, os = None, num_disks = None, single_node = False, libvirt_host = None,
      libvirt_user = None, libvirt_storage_pool = None, deepsea_cli = Some True,
      stop_before_deepsea_stage = None, deepsea_repo = None, deepsea_branch = None,
      repo = None, cpus = None, ram = None, disk_size = None, vagrant_box = None\<rparr>"

section \<open>Well-formed references\<close>

text \<open>Every reference of a role list, and \<open>_node\<close> when it is set, is the address of an object.\<close>

definition wf_roles :: "roles_obj \<Rightarrow> bool" where
  "wf_roles r = list_all (\<lambda>a. a < length (store r)) (refs r)"

definition wf_pstate :: "pstate \<Rightarrow> bool" where
  "wf_pstate st =
     (wf_roles (obj st) \<and> (case node st of None \<Rightarrow> True | Some a \<Rightarrow> a < length (store (obj st))))"

section \<open>The canonical text of a role list\<close>

text \<open>\<open>sep.join(xs)\<close>.\<close>

fun join :: "string \<Rightarrow> string list \<Rightarrow> string" where
  "join sep [] = []"
| "join sep [x] = x"
| "join sep (x # y # ys) = x @ sep @ join sep (y # ys)"

text \<open>
  Modelled from the spec: the canonical renderer, of which the source has none. It writes a
  role list in the bracketed text form of the spec's examples
  (\<open>[admin, mon, mgr],[storage, mon, mgr, mds]\<close>): the roles of a node between brackets,
  separated by a comma and a space, and the nodes separated by a comma.
\<close>

definition render_node :: "string list \<Rightarrow> string" where
  "render_node ts = ''['' @ join '', '' ts @ '']''"

definition render :: "string list list \<Rightarrow> string" where
  "render rl = join '','' (map render_node rl)"

text \<open>
  A role token the round trip is stated for: not empty, and free of brackets and commas.
\<close>

definition plain_token :: "string \<Rightarrow> bool" where
  "plain_token t = (t \<noteq> [] \<and> CHR ''['' \<notin> set t \<and> CHR '']'' \<notin> set t \<and> CHR '','' \<notin> set t)"

section \<open>Facts about strings\<close>

lemma split_from_nonempty: "split_from cur s \<noteq> []"
  by (induction s arbitrary: cur) auto

lemma split_comma_nonempty: "split_comma s \<noteq> []"
  by (simp add: split_comma_def split_from_nonempty)

lemma strip_ends: "strip s = [] \<or> (\<not> is_space (hd (strip s)) \<and> \<not> is_space (last (strip s)))"
proof -
  define u where "u = dropWhile is_space s"
  define w where "w = dropWhile is_space (rev u)"
  have s: "strip s = rev w" by (simp add: strip_def u_def w_def)
  show ?thesis
  proof (cases "w = []")
    case True then show ?thesis by (simp add: s)
  next
    case False
    have hw: "\<not> is_space (hd w)" using False unfolding w_def by (rule hd_dropWhile)
    have "u \<noteq> []" using False by (auto simp: w_def)
    then have hu: "\<not> is_space (hd u)" unfolding u_def by (rule hd_dropWhile)
    obtain p where "rev u = p @ w" unfolding w_def
      by (metis takeWhile_dropWhile_id)
    then have "last w = last (rev u)" using False by simp
    also have "\<dots> = hd u" using \<open>u \<noteq> []\<close> by (simp add: last_rev)
    finally have "\<not> is_space (last w)" using hu by simp
    then show ?thesis using hw False by (simp add: s hd_rev last_rev)
  qed
qed

lemma dropWhile_rev_last: "xs = [] \<or> \<not> P (last xs) \<Longrightarrow> dropWhile P (rev xs) = rev xs"
  by (cases xs rule: rev_cases) auto

lemma dropWhile_hd: "xs = [] \<or> \<not> P (hd xs) \<Longrightarrow> dropWhile P xs = xs"
  by (cases xs) auto

lemma strip_fixed:
  assumes "t = [] \<or> (\<not> is_space (hd t) \<and> \<not> is_space (last t))"
  shows "strip t = t"
proof -
  have "dropWhile is_space t = t" using assms by (intro dropWhile_hd) auto
  moreover have "dropWhile is_space (rev t) = rev t" using assms by (intro dropWhile_rev_last) auto
  ultimately show ?thesis by (simp add: strip_def)
qed

lemma strip_idem: "strip (strip s) = strip s"
  using strip_ends [of s] by (rule strip_fixed)

section \<open>The parser on input that does not open a group\<close>

lemma node_append_None: "node st = None \<Longrightarrow> node_append x st = Inl AttributeError"
  by (simp add: node_append_def)

lemma parse_step_uninit:
  assumes "\<not> startswith_open (strip f)"
  shows "parse_step f init_pstate = Inl AttributeError"
  using assms by (simp add: parse_step_def strip_idem Let_def node_append_None init_pstate_def)

text \<open>
  C10: when the first comma-separated fragment of the input, trimmed, does not begin with
  an opening bracket, \<open>_parse_roles\<close> appends to \<open>_node\<close> while it is still None and raises
  AttributeError; this holds for the empty string and for text without brackets.
\<close>

theorem parse_roles_not_total:
  assumes "\<not> startswith_open (strip (hd (split_comma s)))"
  shows "parse_roles s = Inl AttributeError"
proof -
  obtain f fs where fs: "split_comma s = f # fs"
    using split_comma_nonempty [of s] by (cases "split_comma s") auto
  with assms have "parse_step f init_pstate = Inl AttributeError"
    by (simp add: parse_step_uninit)
  then show ?thesis by (simp add: parse_roles_def fs)
qed

theorem parse_roles_not_total_witness:
  "\<not> startswith_open (strip (hd (split_comma ''admin, mon'')))
   \<and> parse_roles ''admin, mon'' = Inl AttributeError
   \<and> \<not> startswith_open (strip (hd (split_comma [])))
   \<and> parse_roles [] = Inl AttributeError"
proof -
  have h1: "\<not> startswith_open (strip (hd (split_comma ''admin, mon'')))" by code_simp
  have h2: "\<not> startswith_open (strip (hd (split_comma [])))" by code_simp
  show ?thesis
    using h1 h2 parse_roles_not_total [OF h1] parse_roles_not_total [OF h2] by simp
qed

section \<open>Settings derivation: which keys are emitted\<close>

lemma put_str_apply:
  "put_str k v d k' = (if k' = k \<and> truthy_str v then map_option VStr v else d k')"
  by (simp add: put_str_def truthy_str_def split: option.splits)

lemma put_int_apply:
  "put_int k v d k' = (if k' = k \<and> truthy_int v then map_option VInt v else d k')"
  by (simp add: put_int_def truthy_int_def split: option.splits)

lemma put_list_apply:
  "put_list k v d k' = (if k' = k \<and> truthy_list v then map_option VStrList v else d k')"
  by (simp add: put_list_def truthy_list_def split: option.splits)

lemma put_some_str_apply:
  "put_some_str k v d k' = (if k' = k \<and> v \<noteq> None then map_option VStr v else d k')"
  by (simp add: put_some_str_def split: option.splits)

lemma put_some_int_apply:
  "put_some_int k v d k' = (if k' = k \<and> v \<noteq> None then map_option VInt v else d k')"
  by (simp add: put_some_int_def split: option.splits)

lemma put_some_bool_apply:
  "put_some_bool k v d k' = (if k' = k \<and> v \<noteq> None then map_option VBool v else d k')"
  by (simp add: put_some_bool_def split: option.splits)

lemma gen_num_disks_apply:
  "gen_num_disks kw d k' =
     (if k' = ''num_disks'' \<and> (truthy_int (num_disks kw) \<or> single_node kw) then
        Some (VInt (case num_disks kw of
                      None \<Rightarrow> 3
                    | Some n \<Rightarrow> if single_node kw \<and> n < 3 then 3 else n))
      else d k')"
  by (simp add: gen_num_disks_def truthy_int_def split: option.splits)

lemmas put_apply =
  put_str_apply put_int_apply put_list_apply put_some_str_apply put_some_int_apply
  put_some_bool_apply gen_num_disks_apply

lemma gen_rest_roles: "gen_rest v kw d ''roles'' = d ''roles''"
  by (simp add: gen_rest_def Let_def put_apply)

lemma gen_roles_other: "gen_roles kw = Inr d \<Longrightarrow> k \<noteq> ''roles'' \<Longrightarrow> d k = None"
  by (auto simp: gen_roles_def split: if_splits sum.splits)

lemma key_of_roles: "key_of ''roles'' (gen_settings_dict v kw) = key_of ''roles'' (gen_roles kw)"
  by (simp add: key_of_def gen_settings_dict_def gen_rest_roles split: sum.splits)

lemma gen_rest_num_disks:
  "gen_rest v kw d ''num_disks'' = gen_num_disks kw d ''num_disks''"
  by (simp add: gen_rest_def Let_def put_apply)

lemma gen_single_node_total:
  "single_node kw \<Longrightarrow> \<exists>d. gen_settings_dict v kw = Inr d"
  by (simp add: gen_settings_dict_def gen_roles_def)

lemma gen_no_roles_total:
  "\<not> truthy_str (roles kw) \<Longrightarrow> \<exists>d. gen_settings_dict v kw = Inr d"
  by (simp add: gen_settings_dict_def gen_roles_def)

text \<open>
  C4: the disk-count floor of single-node mode. In single-node mode the emitted \<open>num_disks\<close>
  is 3 when no disk count is given, 3 when the given disk count is below 3, and 5 when the
  given disk count is 5; without single-node mode and without a disk count, a returned
  dictionary has no \<open>num_disks\<close> key.
\<close>

theorem num_disks_floor:
  "(single_node kw \<and> num_disks kw = None
      \<longrightarrow> key_of ''num_disks'' (gen_settings_dict v kw) = Inr (Some (VInt 3)))
   \<and> (single_node kw \<and> num_disks kw = Some n \<and> n < 3
      \<longrightarrow> key_of ''num_disks'' (gen_settings_dict v kw) = Inr (Some (VInt 3)))
   \<and> (single_node kw \<and> num_disks kw = Some 5
      \<longrightarrow> key_of ''num_disks'' (gen_settings_dict v kw) = Inr (Some (VInt 5)))
   \<and> (\<not> single_node kw \<and> num_disks kw = None
      \<longrightarrow> (\<forall>d. gen_settings_dict v kw = Inr d \<longrightarrow> d ''num_disks'' = None))"
proof -
  have a: "key_of ''num_disks'' (gen_settings_dict v kw) = Inr (gen_num_disks kw d0 ''num_disks'')"
    if "gen_roles kw = Inr d0" for d0
    using that by (simp add: key_of_def gen_settings_dict_def gen_rest_num_disks)
  have s: "\<exists>d0. gen_roles kw = Inr d0" if "single_node kw"
    using that by (simp add: gen_roles_def)
  have n: "d ''num_disks'' = None"
    if "\<not> single_node kw" "num_disks kw = None" "gen_settings_dict v kw = Inr d" for d
  proof -
    from that(3) obtain d0 where d0: "gen_roles kw = Inr d0" and d: "d = gen_rest v kw d0"
      by (auto simp: gen_settings_dict_def split: sum.splits)
    have "d0 ''num_disks'' = None" using d0 by (rule gen_roles_other) simp
    with that(1,2) show ?thesis
      by (simp add: d gen_rest_num_disks gen_num_disks_apply truthy_int_def)
  qed
  show ?thesis
    using a s n by (auto simp: gen_num_disks_apply truthy_int_def)
qed

theorem num_disks_floor_witness:
  "key_of ''num_disks'' (gen_settings_dict (Some ''ses6'') (default_kwargs\<lparr>single_node := True\<rparr>))
     = Inr (Some (VInt 3))
   \<and> key_of ''num_disks''
       (gen_settings_dict (Some ''ses6'') (default_kwargs\<lparr>single_node := True, num_disks := Some 2\<rparr>))
     = Inr (Some (VInt 3))
   \<and> key_of ''num_disks''
       (gen_settings_dict (Some ''ses6'') (default_kwargs\<lparr>single_node := True, num_disks := Some 5\<rparr>))
     = Inr (Some (VInt 5))
   \<and> key_of ''num_disks'' (gen_settings_dict (Some ''ses6'') default_kwargs) = Inr None"
proof -
  have d: "\<exists>d. gen_settings_dict (Some ''ses6'') default_kwargs = Inr d"
    by (simp add: gen_settings_dict_def gen_roles_def default_kwargs_def truthy_str_def)
  show ?thesis
    using d
      num_disks_floor [of "default_kwargs\<lparr>single_node := True\<rparr>" "Some ''ses6''" 2]
      num_disks_floor [of "default_kwargs\<lparr>single_node := True, num_disks := Some 2\<rparr>" "Some ''ses6''" 2]
      num_disks_floor [of "default_kwargs\<lparr>single_node := True, num_disks := Some 5\<rparr>" "Some ''ses6''" 2]
      num_disks_floor [of default_kwargs "Some ''ses6''" 2]
    by (auto simp: default_kwargs_def key_of_def)
qed

lemma gen_rest_lookup:
  "gen_rest v kw d ''os'' = (if truthy_str (os kw) then map_option VStr (os kw) else d ''os'')"
  "gen_rest v kw d ''cpus'' = (if truthy_int (cpus kw) then map_option VInt (cpus kw) else d ''cpus'')"
  "gen_rest v kw d ''ram'' = (if truthy_int (ram kw) then map_option VInt (ram kw) else d ''ram'')"
  "gen_rest v kw d ''disk_size'' =
     (if truthy_int (disk_size kw) then map_option VInt (disk_size kw) else d ''disk_size'')"
  "gen_rest v kw d ''libvirt_host'' =
     (if truthy_str (libvirt_host kw) then map_option VStr (libvirt_host kw) else d ''libvirt_host'')"
  "gen_rest v kw d ''libvirt_user'' =
     (if truthy_str (libvirt_user kw) then map_option VStr (libvirt_user kw) else d ''libvirt_user'')"
  "gen_rest v kw d ''libvirt_storage_pool'' =
     (if truthy_str (libvirt_storage_pool kw) then map_option VStr (libvirt_storage_pool kw)
      else d ''libvirt_storage_pool'')"
  "gen_rest v kw d ''deepsea_git_repo'' =
     (if truthy_str (deepsea_repo kw) then map_option VStr (deepsea_repo kw)
      else d ''deepsea_git_repo'')"
  "gen_rest v kw d ''deepsea_git_branch'' =
     (if truthy_str (deepsea_branch kw) then map_option VStr (deepsea_branch kw)
      else d ''deepsea_git_branch'')"
  "gen_rest v kw d ''repos'' =
     (if truthy_list (repo kw) then map_option VStrList (repo kw) else d ''repos'')"
  "gen_rest v kw d ''vagrant_box'' =
     (if truthy_str (vagrant_box kw) then map_option VStr (vagrant_box kw) else d ''vagrant_box'')"
  "gen_rest v kw d ''stop_before_stage'' =
     (if stop_before_deepsea_stage kw \<noteq> None then map_option VInt (stop_before_deepsea_stage kw)
      else d ''stop_before_stage'')"
  "gen_rest v kw d ''use_deepsea_cli'' =
     (if deepsea_cli kw \<noteq> None then map_option VBool (deepsea_cli kw) else d ''use_deepsea_cli'')"
  by (simp_all add: gen_rest_def Let_def put_apply)

lemma truthy_Some:
  "truthy_str s \<Longrightarrow> \<exists>z. s = Some z"
  "truthy_int i \<Longrightarrow> \<exists>z. i = Some z"
  "truthy_list l \<Longrightarrow> \<exists>z. l = Some z"
  by (auto simp: truthy_str_def truthy_int_def truthy_list_def split: option.splits)

lemma gen_settings_dictE:
  assumes "gen_settings_dict v kw = Inr d"
  obtains d0 where "gen_roles kw = Inr d0" "d = gen_rest v kw d0"
  using assms by (auto simp: gen_settings_dict_def split: sum.splits)

text \<open>
  C6: in every dictionary that settings derivation returns, the key of a truthy-gated field
  (OS, CPU count, RAM, disk size, libvirt host, user and storage pool, deepsea repo and
  branch, repo URLs, vagrant box) is present if and only if the input is truthy, while the
  stage index and the deepsea-cli flag are stored whenever they are not None, the values 0
  and False included.
\<close>

theorem truthy_gated_keys:
  assumes "gen_settings_dict v kw = Inr d"
  shows "(''os'' \<in> dom d \<longleftrightarrow> truthy_str (os kw))
    \<and> (''cpus'' \<in> dom d \<longleftrightarrow> truthy_int (cpus kw))
    \<and> (''ram'' \<in> dom d \<longleftrightarrow> truthy_int (ram kw))
    \<and> (''disk_size'' \<in> dom d \<longleftrightarrow> truthy_int (disk_size kw))
    \<and> (''libvirt_host'' \<in> dom d \<longleftrightarrow> truthy_str (libvirt_host kw))
    \<and> (''libvirt_user'' \<in> dom d \<longleftrightarrow> truthy_str (libvirt_user kw))
    \<and> (''libvirt_storage_pool'' \<in> dom d \<longleftrightarrow> truthy_str (libvirt_storage_pool kw))
    \<and> (''deepsea_git_repo'' \<in> dom d \<longleftrightarrow> truthy_str (deepsea_repo kw))
    \<and> (''deepsea_git_branch'' \<in> dom d \<longleftrightarrow> truthy_str (deepsea_branch kw))
    \<and> (''repos'' \<in> dom d \<longleftrightarrow> truthy_list (repo kw))
    \<and> (''vagrant_box'' \<in> dom d \<longleftrightarrow> truthy_str (vagrant_box kw))
    \<and> d ''stop_before_stage'' = map_option VInt (stop_before_deepsea_stage kw)
    \<and> d ''use_deepsea_cli'' = map_option VBool (deepsea_cli kw)"
proof -
  from assms obtain d0 where d0: "gen_roles kw = Inr d0" and d: "d = gen_rest v kw d0"
    by (rule gen_settings_dictE)
  have e: "d0 k = None" if "k \<noteq> ''roles''" for k
    using d0 that by (rule gen_roles_other)
  show ?thesis
    unfolding d
    by (intro conjI; cases "stop_before_deepsea_stage kw"; cases "deepsea_cli kw";
        simp add: dom_def gen_rest_lookup e truthy_Some)
qed

theorem truthy_gated_keys_witness:
  "\<exists>d. gen_settings_dict (Some ''ses6'')
          (default_kwargs\<lparr>os := Some ''leap-15.2'', cpus := Some 0, libvirt_host := Some [],
             ram := Some 4, stop_before_deepsea_stage := Some 0, deepsea_cli := Some False\<rparr>) = Inr d
       \<and> ''os'' \<in> dom d \<and> ''cpus'' \<notin> dom d \<and> ''libvirt_host'' \<notin> dom d \<and> ''ram'' \<in> dom d
       \<and> ''disk_size'' \<notin> dom d
       \<and> d ''stop_before_stage'' = Some (VInt 0) \<and> d ''use_deepsea_cli'' = Some (VBool False)"
proof -
  let ?kw = "default_kwargs\<lparr>os := Some ''leap-15.2'', cpus := Some 0, libvirt_host := Some [],
             ram := Some 4, stop_before_deepsea_stage := Some 0, deepsea_cli := Some False\<rparr>"
  have "\<not> truthy_str (roles ?kw)" by (simp add: default_kwargs_def truthy_str_def)
  then obtain d where d: "gen_settings_dict (Some ''ses6'') ?kw = Inr d"
    using gen_no_roles_total by blast
  show ?thesis
    using d truthy_gated_keys [OF d]
    by (simp add: default_kwargs_def truthy_str_def truthy_int_def)
qed

text \<open>
  C5, as stated, fails for a roles text that is supplied but empty: without single-node mode
  no \<open>roles\<close> key is emitted for it, and the parser is not called (it would raise).
\<close>

theorem roles_entry_counterexample:
  "key_of ''roles'' (gen_settings_dict (Some ''ses6'') (default_kwargs\<lparr>roles := Some []\<rparr>)) = Inr None
   \<and> parse_roles [] = Inl AttributeError"
  unfolding key_of_roles
  by (simp add: gen_roles_def key_of_def default_kwargs_def truthy_str_def
      parse_roles_def split_comma_def parse_step_uninit startswith_open_def strip_def)

text \<open>
  C5, amended: in single-node mode the \<open>roles\<close> entry is one node with the fixed single-node
  role set, whatever the roles text; without single-node mode and with a non-empty roles
  text, the entry is the parse of that text (and derivation raises what the parser raises);
  without single-node mode and with no roles text or an empty one, no \<open>roles\<close> key is emitted.
\<close>

theorem roles_entry:
  "(single_node kw \<longrightarrow>
      key_of ''roles'' (gen_settings_dict v kw) = Inr (Some (VRoles single_node_roles)))
   \<and> (\<not> single_node kw \<and> roles kw = Some t \<and> t \<noteq> [] \<longrightarrow>
      key_of ''roles'' (gen_settings_dict v kw)
        = map_sum id (\<lambda>r. Some (VRoles r)) (parse_roles t))
   \<and> (\<not> single_node kw \<and> (roles kw = None \<or> roles kw = Some []) \<longrightarrow>
      key_of ''roles'' (gen_settings_dict v kw) = Inr None)
   \<and> view single_node_roles =
       [[''admin'', ''storage'', ''mon'', ''mgr'', ''prometheus'', ''grafana'', ''mds'',
         ''igw'', ''rgw'', ''ganesha'']]"
  unfolding key_of_roles
  by (cases "roles kw")
     (auto simp: gen_roles_def key_of_def truthy_str_def single_node_roles_def
        view_def split: sum.splits)

theorem roles_entry_witness:
  "key_of ''roles''
     (gen_settings_dict (Some ''ses6'') (default_kwargs\<lparr>single_node := True, roles := Some ''[a]''\<rparr>))
     = Inr (Some (VRoles single_node_roles))
   \<and> key_of ''roles'' (gen_settings_dict (Some ''ses6'') (default_kwargs\<lparr>roles := Some ''[a, b],[c]''\<rparr>))
     = Inr (Some (VRoles \<lparr>store = [[''a'', ''b''], [''c'']], refs = [0, 1]\<rparr>))
   \<and> key_of ''roles'' (gen_settings_dict (Some ''ses6'') default_kwargs) = Inr None"
proof -
  have p: "parse_roles ''[a, b],[c]'' = Inr \<lparr>store = [[''a'', ''b''], [''c'']], refs = [0, 1]\<rparr>"
    by code_simp
  show ?thesis
    using
      roles_entry [of "default_kwargs\<lparr>single_node := True, roles := Some ''[a]''\<rparr>" "Some ''ses6''" "''[a]''"]
      roles_entry [of "default_kwargs\<lparr>roles := Some ''[a, b],[c]''\<rparr>" "Some ''ses6''" "''[a, b],[c]''"]
      roles_entry [of default_kwargs "Some ''ses6''" "''[a]''"]
    by (simp add: default_kwargs_def p)
qed

text \<open>
  C2, as stated, fails: \<open>_parse_roles("")\<close> raises AttributeError and returns no list.
\<close>

theorem parse_empty_counterexample:
  "parse_view [] = Inl AttributeError \<and> parse_view [] \<noteq> Inr []"
  by (simp add: parse_view_def parse_roles_def split_comma_def parse_step_uninit
      startswith_open_def strip_def)

text \<open>
  C2, amended: the parser raises AttributeError on the empty string, and settings derivation
  does not hand it an empty roles text: without single-node mode an empty roles text gives a
  dictionary with no \<open>roles\<close> key.
\<close>

theorem parse_empty_guarded:
  assumes "\<not> single_node kw" and "roles kw = Some []"
  shows "parse_roles [] = Inl AttributeError
    \<and> (\<exists>d. gen_settings_dict v kw = Inr d \<and> ''roles'' \<notin> dom d)"
proof -
  have "parse_roles [] = Inl AttributeError"
    by (simp add: parse_roles_def split_comma_def parse_step_uninit startswith_open_def strip_def)
  moreover have "gen_roles kw = Inr Map.empty"
    using assms by (simp add: gen_roles_def truthy_str_def)
  ultimately show ?thesis
    by (simp add: gen_settings_dict_def dom_def gen_rest_roles)
qed

theorem parse_empty_guarded_witness:
  "\<not> single_node (default_kwargs\<lparr>roles := Some []\<rparr>)
   \<and> roles (default_kwargs\<lparr>roles := Some []\<rparr>) = Some []
   \<and> parse_roles [] = Inl AttributeError
   \<and> (\<exists>d. gen_settings_dict (Some ''ses6'') (default_kwargs\<lparr>roles := Some []\<rparr>) = Inr d
          \<and> ''roles'' \<notin> dom d)"
proof -
  have h1: "\<not> single_node (default_kwargs\<lparr>roles := Some []\<rparr>)"
    by (simp add: default_kwargs_def)
  have h2: "roles (default_kwargs\<lparr>roles := Some []\<rparr>) = Some []"
    by simp
  show ?thesis
    using h1 h2 parse_empty_guarded [OF h1 h2, of "Some ''ses6''"] by simp
qed

section \<open>Cluster status: order independence\<close>

lemma status_step_partial:
  "status_step n ''partially deployed'' = ''partially deployed''"
  "status_step n ''partially running'' = ''partially running''"
  by (simp_all add: status_step_def)

lemma status_loop_partial:
  "status_loop ns ''partially deployed'' = ''partially deployed''"
  "status_loop ns ''partially running'' = ''partially running''"
  by (induction ns) (simp_all add: status_step_partial)

text \<open>Whether a node status changes the running value \<open>s\<close>, and the value it changes it to.\<close>

lemma status_loop_closed:
  "status_loop ns s =
     (if \<exists>n \<in> set ns. status_step n s \<noteq> s then
        (if s = ''not deployed'' then ''partially deployed'' else ''partially running'')
      else s)"
proof (induction ns)
  case Nil
  show ?case by simp
next
  case (Cons n ns)
  show ?case
  proof (cases "status_step n s = s")
    case True
    then show ?thesis using Cons.IH by simp
  next
    case False
    then have "status_step n s = (if s = ''not deployed'' then ''partially deployed''
                                  else ''partially running'')"
      by (auto simp: status_step_def split: if_splits)
    then show ?thesis using False by (auto simp: status_loop_partial)
  qed
qed

lemma status_loop_set:
  assumes "set ns = set ns'"
  shows "status_loop ns s = status_loop ns' s"
  by (simp add: status_loop_closed [of ns] status_loop_closed [of ns'] assms)

text \<open>
  C3: the cluster status does not depend on the iteration order. For a node dictionary that
  has the node \<open>admin\<close>, \<open>_status\<close> returns a status, and it returns the same status for
  every permutation of the dictionary's entries (so also for every permutation of the
  entries other than \<open>admin\<close>).
\<close>

theorem status_order_independent:
  assumes "distinct (map fst nodes)" and "''admin'' \<in> fst ` set nodes"
    and "mset nodes' = mset nodes"
  shows "status nodes' = status nodes \<and> (\<exists>s. status nodes = Inr s)"
proof -
  have d: "distinct (map fst nodes')"
    using assms(1,3) by (metis mset_map mset_eq_imp_distinct_iff)
  have s: "set nodes' = set nodes"
    using assms(3) by (rule mset_eq_setD)
  have m: "map_of nodes' = map_of nodes"
    using d assms(1) s by (simp add: map_of_inject_set)
  have l: "status_loop (map snd nodes') a = status_loop (map snd nodes) a" for a
    by (rule status_loop_set) (simp add: s)
  obtain a where "map_of nodes ''admin'' = Some a"
    using assms(2) by (metis domD dom_map_of_conv_image_fst)
  then show ?thesis by (simp add: status_def m l)
qed

theorem status_order_independent_witness:
  "distinct (map fst [(''admin'', ''running''), (''node1'', ''stopped''), (''node2'', ''running'')])
   \<and> ''admin'' \<in> fst ` set [(''admin'', ''running''), (''node1'', ''stopped''), (''node2'', ''running'')]
   \<and> mset [(''node2'', ''running''), (''admin'', ''running''), (''node1'', ''stopped'')]
       = mset [(''admin'', ''running''), (''node1'', ''stopped''), (''node2'', ''running'')]
   \<and> status [(''node2'', ''running''), (''admin'', ''running''), (''node1'', ''stopped'')]
       = status [(''admin'', ''running''), (''node1'', ''stopped''), (''node2'', ''running'')]
   \<and> status [(''admin'', ''running''), (''node1'', ''stopped''), (''node2'', ''running'')]
       = Inr ''partially running''"
proof -
  let ?n = "[(''admin'', ''running''), (''node1'', ''stopped''), (''node2'', ''running'')]"
  let ?n' = "[(''node2'', ''running''), (''admin'', ''running''), (''node1'', ''stopped'')]"
  have h1: "distinct (map fst ?n)" by simp
  have h2: "''admin'' \<in> fst ` set ?n" by simp
  have h3: "mset ?n' = mset ?n" by (simp add: add.commute)
  have v: "status ?n = Inr ''partially running''"
    by (simp add: status_def status_step_def)
  show ?thesis
    using h1 h2 h3 v status_order_independent [OF h1 h2 h3] by simp
qed

section \<open>The parser returns valid references; the ses5 role\<close>

lemma wf_init: "wf_pstate init_pstate"
  by (simp add: wf_pstate_def wf_roles_def init_pstate_def)

lemma wf_new_node: "wf_pstate st \<Longrightarrow> wf_pstate (new_node st)"
  by (auto simp: wf_pstate_def wf_roles_def new_node_def list_all_iff)

lemma wf_node_append: "wf_pstate st \<Longrightarrow> node_append x st = Inr st' \<Longrightarrow> wf_pstate st'"
  by (auto simp: wf_pstate_def wf_roles_def node_append_def list_all_iff split: option.splits)

lemma wf_roles_append: "wf_pstate st \<Longrightarrow> roles_append st = Inr st' \<Longrightarrow> wf_pstate st'"
  by (auto simp: wf_pstate_def wf_roles_def roles_append_def list_all_iff split: option.splits)

lemma wf_append_both:
  "wf_pstate st \<Longrightarrow> node_append x st = Inr s1 \<Longrightarrow> roles_append s1 = Inr s2 \<Longrightarrow> wf_pstate s2"
  by (blast intro: wf_node_append wf_roles_append)

lemma wf_parse_step:
  assumes "wf_pstate st" and "parse_step f st = Inr st'"
  shows "wf_pstate st'"
proof -
  note n = wf_new_node [OF assms(1)]
  show ?thesis
    using assms(2)
    by (auto simp: parse_step_def Let_def split: if_splits sum.splits
        dest: wf_append_both [OF n] wf_node_append [OF n]
          wf_append_both [OF assms(1)] wf_node_append [OF assms(1)])
qed

lemma wf_parse_loop:
  "wf_pstate st \<Longrightarrow> parse_loop fs st = Inr st' \<Longrightarrow> wf_pstate st'"
proof (induction fs arbitrary: st)
  case Nil
  then show ?case by simp
next
  case (Cons f fs)
  then show ?case by (auto split: sum.splits dest: wf_parse_step)
qed

lemma wf_parse_roles: "parse_roles s = Inr r \<Longrightarrow> wf_roles r"
  using wf_parse_loop [OF wf_init]
  by (auto simp: parse_roles_def wf_pstate_def split: sum.splits)

lemma wf_single_node_roles: "wf_roles single_node_roles"
  by (simp add: wf_roles_def single_node_roles_def)

lemma gen_roles_value:
  assumes "gen_roles kw = Inr d"
  shows "d ''roles'' = None \<or> (\<exists>r. d ''roles'' = Some (VRoles r) \<and> wf_roles r)"
  using assms
  by (auto simp: gen_roles_def wf_single_node_roles split: if_splits sum.splits
      dest: wf_parse_roles)

lemma gen_settings_roles_value:
  assumes "gen_settings_dict v kw = Inr d"
  shows "d ''roles'' = None \<or> (\<exists>r. d ''roles'' = Some (VRoles r) \<and> wf_roles r)"
proof -
  from assms obtain d0 where "gen_roles kw = Inr d0" and "d = gen_rest v kw d0"
    by (rule gen_settings_dictE)
  then show ?thesis using gen_roles_value [of kw d0] by (simp add: gen_rest_roles)
qed

lemma append_first_view:
  assumes "wf_roles r" and "refs r \<noteq> []"
  shows "\<exists>r'. append_first x r = Inr r' \<and> refs r' = refs r
           \<and> length (view r') = length (view r)
           \<and> hd (view r') = hd (view r) @ [x]
           \<and> (\<forall>i < length (view r). refs r ! i \<noteq> hd (refs r) \<longrightarrow> view r' ! i = view r ! i)"
proof -
  from assms(2) obtain a as where ra: "refs r = a # as" by (cases "refs r") auto
  with assms(1) have a: "a < length (store r)" by (simp add: wf_roles_def)
  let ?r' = "r\<lparr>store := (store r)[a := store r ! a @ [x]]\<rparr>"
  have "append_first x r = Inr ?r'" by (simp add: append_first_def ra)
  moreover have "hd (view ?r') = hd (view r) @ [x]" using a by (simp add: view_def ra)
  moreover have "view ?r' ! i = view r ! i" if "i < length (refs r)" "refs r ! i \<noteq> a" for i
    using that by (simp add: view_def)
  moreover have "hd (refs r) = a" by (simp add: ra)
  ultimately show ?thesis by (simp add: view_def)
qed

text \<open>
  C9, as stated, fails when the \<open>roles\<close> key holds an empty role list, which the parser
  returns for a first group that is never closed: the key was emitted, and \<open>ses5\<close> raises
  IndexError instead of appending.
\<close>

theorem ses5_openattic_counterexample:
  "key_of ''roles'' (gen_settings_dict (Some ''ses5'') (default_kwargs\<lparr>roles := Some ''[admin, mon''\<rparr>))
     = Inr (Some (VRoles \<lparr>store = [[''admin'', ''mon'']], refs = []\<rparr>))
   \<and> ses5 (default_kwargs\<lparr>roles := Some ''[admin, mon''\<rparr>) = Inl IndexError"
proof -
  have p: "parse_roles ''[admin, mon'' = Inr \<lparr>store = [[''admin'', ''mon'']], refs = []\<rparr>"
    by code_simp
  have g: "gen_roles (default_kwargs\<lparr>roles := Some ''[admin, mon''\<rparr>)
             = Inr (Map.empty(''roles'' \<mapsto> VRoles \<lparr>store = [[''admin'', ''mon'']], refs = []\<rparr>))"
    by (simp add: gen_roles_def default_kwargs_def truthy_str_def p)
  have k: "key_of ''roles'' (gen_settings_dict (Some ''ses5'') (default_kwargs\<lparr>roles := Some ''[admin, mon''\<rparr>))
     = Inr (Some (VRoles \<lparr>store = [[''admin'', ''mon'']], refs = []\<rparr>))"
    unfolding key_of_roles by (simp add: g key_of_def)
  have s: "ses5 (default_kwargs\<lparr>roles := Some ''[admin, mon''\<rparr>) = Inl IndexError"
    by (simp add: ses5_def gen_settings_dict_def g gen_rest_roles append_first_def)
  show ?thesis using k s by simp
qed

text \<open>
  C9, amended: for the version tag \<open>ses5\<close>, when settings derivation emitted a \<open>roles\<close> key
  whose role list has at least one node, \<open>openattic\<close> is appended to the role set of the
  first node, after the roles are final; the number of nodes stays, the nodes that are not
  the same list object as the first keep their roles, and no other key changes. When no
  \<open>roles\<close> key was emitted, the configuration is unchanged.
\<close>

theorem ses5_openattic:
  assumes "gen_settings_dict (Some ''ses5'') kw = Inr d"
  shows "(''roles'' \<notin> dom d \<longrightarrow> ses5 kw = Inr d)
    \<and> (''roles'' \<in> dom d \<longrightarrow>
         (\<exists>r. d ''roles'' = Some (VRoles r)
            \<and> (view r \<noteq> [] \<longrightarrow>
                 (\<exists>r'. ses5 kw = Inr (d(''roles'' \<mapsto> VRoles r'))
                    \<and> length (view r') = length (view r)
                    \<and> hd (view r') = hd (view r) @ [''openattic'']
                    \<and> (\<forall>i < length (view r).
                          refs r ! i \<noteq> hd (refs r) \<longrightarrow> view r' ! i = view r ! i)))))"
proof (cases "d ''roles''")
  case None
  then show ?thesis using assms by (simp add: ses5_def dom_def)
next
  case (Some x)
  with gen_settings_roles_value [OF assms] obtain r
    where r: "d ''roles'' = Some (VRoles r)" and wf: "wf_roles r" by auto
  have "\<exists>r'. ses5 kw = Inr (d(''roles'' \<mapsto> VRoles r'))
          \<and> length (view r') = length (view r)
          \<and> hd (view r') = hd (view r) @ [''openattic'']
          \<and> (\<forall>i < length (view r). refs r ! i \<noteq> hd (refs r) \<longrightarrow> view r' ! i = view r ! i)"
    if "view r \<noteq> []"
  proof -
    from that have "refs r \<noteq> []" by (simp add: view_def)
    from append_first_view [OF wf this, of "''openattic''"] obtain r'
      where "append_first ''openattic'' r = Inr r'"
        and "length (view r') = length (view r)"
        and "hd (view r') = hd (view r) @ [''openattic'']"
        and "\<forall>i < length (view r). refs r ! i \<noteq> hd (refs r) \<longrightarrow> view r' ! i = view r ! i"
      by blast
    then show ?thesis using assms r by (auto simp: ses5_def)
  qed
  then show ?thesis using r by (simp add: dom_def)
qed

theorem ses5_openattic_witness:
  "(\<exists>d. gen_settings_dict (Some ''ses5'') (default_kwargs\<lparr>roles := Some ''[admin, mon],[storage]''\<rparr>) = Inr d
     \<and> ''roles'' \<in> dom d
     \<and> (\<exists>r. d ''roles'' = Some (VRoles r) \<and> view r = [[''admin'', ''mon''], [''storage'']]
          \<and> (\<exists>r'. ses5 (default_kwargs\<lparr>roles := Some ''[admin, mon],[storage]''\<rparr>)
                     = Inr (d(''roles'' \<mapsto> VRoles r'))
                \<and> hd (view r') = [''admin'', ''mon'', ''openattic'']
                \<and> view r' ! 1 = [''storage''])))
   \<and> (\<exists>d. gen_settings_dict (Some ''ses5'') default_kwargs = Inr d \<and> ''roles'' \<notin> dom d
          \<and> ses5 default_kwargs = Inr d)"
proof -
  let ?kw = "default_kwargs\<lparr>roles := Some ''[admin, mon],[storage]''\<rparr>"
  let ?r = "\<lparr>store = [[''admin'', ''mon''], [''storage'']], refs = [0, 1]\<rparr>"
  have p: "parse_roles ''[admin, mon],[storage]'' = Inr ?r"
    by code_simp
  have g: "gen_roles ?kw = Inr (Map.empty(''roles'' \<mapsto> VRoles ?r))"
    by (simp add: gen_roles_def default_kwargs_def truthy_str_def p)
  define d where "d = gen_rest (Some ''ses5'') ?kw (Map.empty(''roles'' \<mapsto> VRoles ?r))"
  have gd: "gen_settings_dict (Some ''ses5'') ?kw = Inr d"
    by (simp add: gen_settings_dict_def g d_def)
  have dr: "d ''roles'' = Some (VRoles ?r)"
    by (simp add: d_def gen_rest_roles)
  have v: "view ?r = [[''admin'', ''mon''], [''storage'']]"
    by (simp add: view_def)
  have one: "\<exists>d. gen_settings_dict (Some ''ses5'') ?kw = Inr d
     \<and> ''roles'' \<in> dom d
     \<and> (\<exists>r. d ''roles'' = Some (VRoles r) \<and> view r = [[''admin'', ''mon''], [''storage'']]
          \<and> (\<exists>r'. ses5 ?kw = Inr (d(''roles'' \<mapsto> VRoles r'))
                \<and> hd (view r') = [''admin'', ''mon'', ''openattic'']
                \<and> view r' ! 1 = [''storage'']))"
    using ses5_openattic [OF gd] gd dr v
    by (auto simp: dom_def)
  have g0: "gen_roles default_kwargs = Inr Map.empty"
    by (simp add: gen_roles_def default_kwargs_def truthy_str_def)
  define e where "e = gen_rest (Some ''ses5'') default_kwargs Map.empty"
  have ge: "gen_settings_dict (Some ''ses5'') default_kwargs = Inr e"
    by (simp add: gen_settings_dict_def g0 e_def)
  have er: "''roles'' \<notin> dom e"
    by (simp add: e_def dom_def gen_rest_roles)
  have two: "\<exists>d. gen_settings_dict (Some ''ses5'') default_kwargs = Inr d \<and> ''roles'' \<notin> dom d
          \<and> ses5 default_kwargs = Inr d"
    using ses5_openattic [OF ge] ge er by simp
  show ?thesis using one two by (rule conjI)
qed

section \<open>The loop body, branch by branch\<close>

subsection \<open>Splitting\<close>

lemma split_from_no_comma: "CHR '','' \<notin> set t \<Longrightarrow> split_from cur t = [cur @ t]"
  by (induction t arbitrary: cur) auto

lemma split_from_comma:
  "split_from cur (a @ CHR '','' # b) = split_from cur a @ split_from [] b"
  by (induction a arbitrary: cur) auto

lemma split_from_token:
  "CHR '','' \<notin> set t \<Longrightarrow> split_from cur (t @ CHR '','' # b) = (cur @ t) # split_from [] b"
  by (simp add: split_from_comma split_from_no_comma)

lemma split_from_chars:
  "split_from cur y = f # fs \<Longrightarrow>
     (\<exists>z. f = cur @ z \<and> set z \<subseteq> set y) \<and> (\<forall>g \<in> set fs. set g \<subseteq> set y)"
proof (induction y arbitrary: cur f fs)
  case Nil
  then show ?case by simp
next
  case (Cons c y)
  show ?case
  proof (cases "c = CHR '',''")
    case True
    with Cons.prems have f: "f = cur" and fs: "fs = split_from [] y" by auto
    obtain g gs where g: "split_from [] y = g # gs"
      using split_from_nonempty [of "[]" y] by (cases "split_from [] y") auto
    from Cons.IH [OF g] have "set g \<subseteq> set y" and "\<forall>h \<in> set gs. set h \<subseteq> set y" by auto
    then show ?thesis using f fs g by auto
  next
    case False
    with Cons.prems have "split_from (cur @ [c]) y = f # fs" by simp
    from Cons.IH [OF this] show ?thesis by auto
  qed
qed

subsection \<open>Stripping\<close>

lemma not_space_bracket [simp]: "\<not> is_space CHR ''[''" "\<not> is_space CHR '']''"
  by (simp_all add: is_space_def)

lemma is_space_blank [simp]: "is_space CHR '' ''"
  by (simp add: is_space_def)

lemma set_strip: "set (strip s) \<subseteq> set s"
proof -
  have "set (dropWhile is_space (rev (dropWhile is_space s))) \<subseteq> set (rev (dropWhile is_space s))"
    by (meson set_dropWhileD subsetI)
  also have "\<dots> \<subseteq> set s" by (auto dest: set_dropWhileD)
  finally show ?thesis by (simp add: strip_def)
qed

lemma strip_space_Cons: "is_space c \<Longrightarrow> strip (c # s) = strip s"
  by (simp add: strip_def)

lemma strip_open: "strip (CHR ''['' # z) = CHR ''['' # rev (dropWhile is_space (rev z))"
  by (simp add: strip_def dropWhile_append)

lemma startswith_open_Cons [simp]: "startswith_open (c # r) = (c = CHR ''['')"
  by (simp add: startswith_open_def)

lemma no_bracket_plain:
  assumes "CHR ''['' \<notin> set g" and "CHR '']'' \<notin> set g"
  shows "\<not> startswith_open (strip g) \<and> \<not> endswith_close (strip g)"
proof -
  have "CHR ''['' \<notin> set (strip g)" "CHR '']'' \<notin> set (strip g)"
    using assms set_strip [of g] by auto
  then show ?thesis
    by (cases "strip g") (auto simp: endswith_close_def startswith_open_def dest: last_in_set)
qed

subsection \<open>The four branches of the loop body\<close>

lemma parse_step_open:
  assumes "startswith_open (strip f)" and "\<not> endswith_close (strip f)"
  shows "parse_step f st =
    Inr \<lparr>obj = \<lparr>store = store (obj st) @ [[tl (strip f)]], refs = refs (obj st)\<rparr>,
         node = Some (length (store (obj st)))\<rparr>"
  using assms by (simp add: parse_step_def strip_idem new_node_def node_append_def)

lemma parse_step_open_close:
  assumes "startswith_open (strip f)" and "endswith_close (strip f)"
  shows "parse_step f st =
    Inr \<lparr>obj = \<lparr>store = store (obj st) @ [[tl (butlast (strip f))]],
                refs = refs (obj st) @ [length (store (obj st))]\<rparr>,
         node = Some (length (store (obj st)))\<rparr>"
  using assms by (simp add: parse_step_def strip_idem new_node_def node_append_def roles_append_def)

lemma parse_step_close:
  assumes "\<not> startswith_open (strip f)" and "endswith_close (strip f)" and "node st = Some a"
  shows "parse_step f st =
    Inr \<lparr>obj = \<lparr>store = (store (obj st))[a := store (obj st) ! a @ [butlast (strip f)]],
                refs = refs (obj st) @ [a]\<rparr>,
         node = Some a\<rparr>"
  using assms by (simp add: parse_step_def strip_idem node_append_def roles_append_def)

lemma parse_step_plain:
  assumes "\<not> startswith_open (strip f)" and "\<not> endswith_close (strip f)" and "node st = Some a"
  shows "parse_step f st =
    Inr \<lparr>obj = \<lparr>store = (store (obj st))[a := store (obj st) ! a @ [strip f]],
                refs = refs (obj st)\<rparr>,
         node = Some a\<rparr>"
  using assms by (simp add: parse_step_def strip_idem node_append_def)

lemma parse_loop_append:
  "parse_loop (fs @ gs) st =
     (case parse_loop fs st of Inl e \<Rightarrow> Inl e | Inr st' \<Rightarrow> parse_loop gs st')"
  by (induction fs arbitrary: st) (auto split: sum.splits)

text \<open>Fragments without brackets are appended to the node that \<open>_node\<close> refers to.\<close>

lemma parse_loop_plain:
  assumes "\<forall>g \<in> set fs. \<not> startswith_open (strip g) \<and> \<not> endswith_close (strip g)"
    and "node st = Some a" and "a < length (store (obj st))"
  shows "parse_loop fs st =
    Inr \<lparr>obj = \<lparr>store = (store (obj st))[a := store (obj st) ! a @ map strip fs],
                refs = refs (obj st)\<rparr>,
         node = Some a\<rparr>"
  using assms
proof (induction fs arbitrary: st)
  case Nil
  then show ?case by simp
next
  case (Cons g fs)
  let ?st = "\<lparr>obj = \<lparr>store = (store (obj st))[a := store (obj st) ! a @ [strip g]],
                refs = refs (obj st)\<rparr>, node = Some a\<rparr>"
  have s: "parse_step g st = Inr ?st"
    using Cons.prems by (intro parse_step_plain) auto
  have "parse_loop fs ?st =
    Inr \<lparr>obj = \<lparr>store = (store (obj ?st))[a := store (obj ?st) ! a @ map strip fs],
                refs = refs (obj ?st)\<rparr>, node = Some a\<rparr>"
    using Cons.prems by (intro Cons.IH) auto
  then show ?case using s Cons.prems(3) by simp
qed

section \<open>A group that is never closed\<close>

lemma not_space_comma: "\<not> is_space CHR '',''"
  by (simp add: is_space_def)

lemma spaces_no_comma: "list_all is_space w \<Longrightarrow> CHR '','' \<notin> set w"
  using not_space_comma by (auto simp: list_all_iff)

lemma strip_space_prefix: "list_all is_space w \<Longrightarrow> strip (w @ s) = strip s"
  by (induction w) (simp_all add: strip_space_Cons)

lemma split_from_prefix:
  "CHR '','' \<notin> set w \<Longrightarrow> split_from cur (w @ y) = split_from (cur @ w) y"
  by (induction w arbitrary: cur) auto

text \<open>
  The fragments of a group that is opened, after optional whitespace, and never closed: they
  create one node, fill it, and leave \<open>_roles\<close> and the older nodes as they were.
\<close>

lemma parse_loop_unclosed:
  assumes "list_all is_space w" and "CHR ''['' \<notin> set x" and "CHR '']'' \<notin> set x"
  shows "\<exists>st'. parse_loop (split_from [] (w @ CHR ''['' # x)) st = Inr st'
           \<and> refs (obj st') = refs (obj st)
           \<and> take (length (store (obj st))) (store (obj st')) = store (obj st)"
proof -
  have sw: "split_from [] (w @ CHR ''['' # x) = split_from (w @ ''['') x"
    using split_from_prefix [OF spaces_no_comma [OF assms(1)], of "[]" "CHR ''['' # x"] by simp
  obtain f fs where ffs: "split_from (w @ ''['') x = f # fs"
    using split_from_nonempty [of "w @ ''[''" x] by (cases "split_from (w @ ''['') x") auto
  from split_from_chars [OF this] obtain z
    where f: "f = w @ CHR ''['' # z" and z: "set z \<subseteq> set x"
      and fs: "\<forall>g \<in> set fs. set g \<subseteq> set x"
    by auto
  let ?u = "rev (dropWhile is_space (rev z))"
  have sf: "strip f = CHR ''['' # ?u"
    by (simp add: f strip_space_prefix [OF assms(1)] strip_open)
  have "set ?u \<subseteq> set z" by (auto dest: set_dropWhileD)
  with z assms(3) have nb: "CHR '']'' \<notin> set ?u" by auto
  have nc: "\<not> endswith_close (strip f)"
  proof (cases "?u = []")
    case True
    then show ?thesis by (simp add: sf endswith_close_def)
  next
    case False
    then have "last (CHR ''['' # ?u) = last ?u" by (rule last_ConsR)
    moreover have "last ?u \<in> set ?u" using False by (rule last_in_set)
    ultimately have "last (CHR ''['' # ?u) \<noteq> CHR '']''" using nb by metis
    then show ?thesis unfolding sf endswith_close_def by blast
  qed
  have op: "startswith_open (strip f)" by (simp add: sf)
  let ?n = "length (store (obj st))"
  let ?st1 = "\<lparr>obj = \<lparr>store = store (obj st) @ [[tl (strip f)]], refs = refs (obj st)\<rparr>,
               node = Some ?n\<rparr>"
  have s1: "parse_step f st = Inr ?st1"
    using op nc by (rule parse_step_open)
  have pl: "\<forall>g \<in> set fs. \<not> startswith_open (strip g) \<and> \<not> endswith_close (strip g)"
  proof
    fix g
    assume "g \<in> set fs"
    with fs have "set g \<subseteq> set x" by blast
    with assms have "CHR ''['' \<notin> set g" and "CHR '']'' \<notin> set g" by auto
    then show "\<not> startswith_open (strip g) \<and> \<not> endswith_close (strip g)"
      by (rule no_bracket_plain)
  qed
  have "parse_loop fs ?st1 =
    Inr \<lparr>obj = \<lparr>store = (store (obj ?st1))[?n := store (obj ?st1) ! ?n @ map strip fs],
                refs = refs (obj ?st1)\<rparr>, node = Some ?n\<rparr>"
    using pl by (intro parse_loop_plain) auto
  then show ?thesis using s1 ffs sw by simp
qed

lemma view_take:
  assumes "wf_roles r" and "refs r' = refs r" and "take (length (store r)) (store r') = store r"
  shows "view r' = view r"
proof -
  have "store r' ! a = store r ! a" if "a < length (store r)" for a
    using that assms(3) by (metis nth_take)
  then show ?thesis using assms(1,2) by (simp add: view_def wf_roles_def list_all_iff)
qed

text \<open>The parser on an unterminated group alone, and after a comma.\<close>

lemma parse_roles_unclosed_alone:
  assumes "list_all is_space w" and "CHR ''['' \<notin> set x" and "CHR '']'' \<notin> set x"
  shows "\<exists>r. parse_roles (w @ CHR ''['' # x) = Inr r \<and> view r = []"
proof -
  from parse_loop_unclosed [OF assms, of init_pstate] obtain st'
    where "parse_loop (split_from [] (w @ CHR ''['' # x)) init_pstate = Inr st'"
      and "refs (obj st') = refs (obj init_pstate)"
    by blast
  then show ?thesis
    by (simp add: parse_roles_def split_comma_def view_def init_pstate_def)
qed

lemma parse_roles_unclosed_after:
  assumes "list_all is_space w" and "CHR ''['' \<notin> set x" and "CHR '']'' \<notin> set x"
  shows "(\<forall>e. parse_roles s = Inl e \<longrightarrow> parse_roles (s @ CHR '','' # w @ CHR ''['' # x) = Inl e)
    \<and> (\<forall>r. parse_roles s = Inr r \<longrightarrow>
          (\<exists>r'. parse_roles (s @ CHR '','' # w @ CHR ''['' # x) = Inr r' \<and> view r' = view r))"
proof -
  have sp: "split_comma (s @ CHR '','' # w @ CHR ''['' # x)
              = split_comma s @ split_from [] (w @ CHR ''['' # x)"
    by (simp add: split_comma_def split_from_comma)
  show ?thesis
  proof (cases "parse_loop (split_comma s) init_pstate")
    case (Inl e)
    then show ?thesis
      by (simp add: parse_roles_def sp parse_loop_append)
  next
    case (Inr st)
    then have wf: "wf_pstate st" using wf_parse_loop [OF wf_init] by blast
    from parse_loop_unclosed [OF assms, of st] obtain st'
      where l: "parse_loop (split_from [] (w @ CHR ''['' # x)) st = Inr st'"
        and r: "refs (obj st') = refs (obj st)"
        and t: "take (length (store (obj st))) (store (obj st')) = store (obj st)"
      by blast
    have "view (obj st') = view (obj st)"
      using wf r t by (intro view_take) (simp_all add: wf_pstate_def)
    then show ?thesis
      using Inr l by (simp add: parse_roles_def sp parse_loop_append)
  qed
qed

lemma key_of_roles_parsed:
  assumes "\<not> single_node kw" and "roles kw = Some t" and "t \<noteq> []" and "parse_roles t = Inr r"
  shows "key_of ''roles'' (gen_settings_dict v kw) = Inr (Some (VRoles r))"
  unfolding key_of_roles using assms
  by (simp add: gen_roles_def truthy_str_def key_of_def)

text \<open>
  C1, as stated, fails: for the text \<open>[admin, mon\<close>, whose group is never closed, the parser
  raises nothing and returns the empty role list, and settings derivation returns a
  dictionary with that role list under \<open>roles\<close>.
\<close>

theorem unclosed_group_counterexample:
  "parse_view ''[admin, mon'' = Inr []
   \<and> key_of ''roles'' (gen_settings_dict (Some ''ses6'') (default_kwargs\<lparr>roles := Some ''[admin, mon''\<rparr>))
       = Inr (Some (VRoles \<lparr>store = [[''admin'', ''mon'']], refs = []\<rparr>))"
proof -
  have p: "parse_roles ''[admin, mon'' = Inr \<lparr>store = [[''admin'', ''mon'']], refs = []\<rparr>"
    by code_simp
  have g: "gen_roles (default_kwargs\<lparr>roles := Some ''[admin, mon''\<rparr>)
             = Inr (Map.empty(''roles'' \<mapsto> VRoles \<lparr>store = [[''admin'', ''mon'']], refs = []\<rparr>))"
    by (simp add: gen_roles_def default_kwargs_def truthy_str_def p)
  have k: "key_of ''roles'' (gen_settings_dict (Some ''ses6'') (default_kwargs\<lparr>roles := Some ''[admin, mon''\<rparr>))
     = Inr (Some (VRoles \<lparr>store = [[''admin'', ''mon'']], refs = []\<rparr>))"
    unfolding key_of_roles by (simp add: g key_of_def)
  show ?thesis using k by (simp add: parse_view_def p view_def)
qed

text \<open>
  C1, amended: a last group that is opened, after optional whitespace, and never closed (its
  text \<open>x\<close> has no further bracket) raises no error of its own and is dropped without notice.
  Alone, the group parses to the empty role list, and settings derivation without
  single-node mode returns a dictionary with the empty role list under \<open>roles\<close>. After a comma,
  when the text before the comma parses to a role list, the whole input parses to that same
  role list, and settings derivation returns a dictionary with it under \<open>roles\<close>; when the
  text before the comma raises, the whole input raises the same error.
\<close>

theorem unclosed_group_dropped:
  assumes "list_all is_space w" and "CHR ''['' \<notin> set x" and "CHR '']'' \<notin> set x"
  shows "parse_view (w @ ''['' @ x) = Inr []
    \<and> (\<not> single_node kw \<and> roles kw = Some (w @ ''['' @ x) \<longrightarrow>
         (\<exists>r. key_of ''roles'' (gen_settings_dict v kw) = Inr (Some (VRoles r)) \<and> view r = []))
    \<and> (parse_view s = Inr rl \<longrightarrow> parse_view (s @ '','' @ w @ ''['' @ x) = Inr rl)
    \<and> (\<not> single_node kw \<and> roles kw = Some (s @ '','' @ w @ ''['' @ x) \<and> parse_view s = Inr rl \<longrightarrow>
         (\<exists>r. key_of ''roles'' (gen_settings_dict v kw) = Inr (Some (VRoles r)) \<and> view r = rl))
    \<and> (parse_view s = Inl e \<longrightarrow> parse_view (s @ '','' @ w @ ''['' @ x) = Inl e)"
proof -
  from parse_roles_unclosed_alone [OF assms] obtain r0
    where r0: "parse_roles (w @ CHR ''['' # x) = Inr r0" and v0: "view r0 = []"
    by blast
  note after = parse_roles_unclosed_after [OF assms, of s]
  have one: "parse_view (w @ ''['' @ x) = Inr []"
    using r0 v0 by (simp add: parse_view_def)
  have two: "\<not> single_node kw \<and> roles kw = Some (w @ ''['' @ x) \<longrightarrow>
         (\<exists>r. key_of ''roles'' (gen_settings_dict v kw) = Inr (Some (VRoles r)) \<and> view r = [])"
  proof (intro impI, elim conjE)
    assume a: "\<not> single_node kw" and b: "roles kw = Some (w @ ''['' @ x)"
    from b have b': "roles kw = Some (w @ CHR ''['' # x)" by simp
    have "key_of ''roles'' (gen_settings_dict v kw) = Inr (Some (VRoles r0))"
      using key_of_roles_parsed [OF a b' _ r0] by simp
    then show "\<exists>r. key_of ''roles'' (gen_settings_dict v kw) = Inr (Some (VRoles r)) \<and> view r = []"
      using v0 by blast
  qed
  have three: "parse_view s = Inr rl \<longrightarrow> parse_view (s @ '','' @ w @ ''['' @ x) = Inr rl"
  proof
    assume "parse_view s = Inr rl"
    then obtain r where r: "parse_roles s = Inr r" and v: "view r = rl"
      by (cases "parse_roles s") (auto simp: parse_view_def)
    with after obtain r'
      where "parse_roles (s @ CHR '','' # w @ CHR ''['' # x) = Inr r'" and "view r' = view r"
      by blast
    then show "parse_view (s @ '','' @ w @ ''['' @ x) = Inr rl"
      using v by (simp add: parse_view_def)
  qed
  have four: "\<not> single_node kw \<and> roles kw = Some (s @ '','' @ w @ ''['' @ x) \<and> parse_view s = Inr rl \<longrightarrow>
         (\<exists>r. key_of ''roles'' (gen_settings_dict v kw) = Inr (Some (VRoles r)) \<and> view r = rl)"
  proof (intro impI, elim conjE)
    assume a: "\<not> single_node kw" and b: "roles kw = Some (s @ '','' @ w @ ''['' @ x)"
      and c: "parse_view s = Inr rl"
    from c obtain r where r: "parse_roles s = Inr r" and v: "view r = rl"
      by (cases "parse_roles s") (auto simp: parse_view_def)
    with after obtain r'
      where r': "parse_roles (s @ CHR '','' # w @ CHR ''['' # x) = Inr r'" and v': "view r' = view r"
      by blast
    from b have b': "roles kw = Some (s @ CHR '','' # w @ CHR ''['' # x)" by simp
    have "key_of ''roles'' (gen_settings_dict v kw) = Inr (Some (VRoles r'))"
      using key_of_roles_parsed [OF a b' _ r'] by simp
    then show "\<exists>r. key_of ''roles'' (gen_settings_dict v kw) = Inr (Some (VRoles r)) \<and> view r = rl"
      using v v' by auto
  qed
  have five: "parse_view s = Inl e \<longrightarrow> parse_view (s @ '','' @ w @ ''['' @ x) = Inl e"
  proof
    assume "parse_view s = Inl e"
    then have "parse_roles s = Inl e"
      by (cases "parse_roles s") (auto simp: parse_view_def)
    with after have "parse_roles (s @ CHR '','' # w @ CHR ''['' # x) = Inl e" by blast
    then show "parse_view (s @ '','' @ w @ ''['' @ x) = Inl e"
      by (simp add: parse_view_def)
  qed
  from one two three four five show ?thesis by (intro conjI)
qed

theorem unclosed_group_dropped_witness:
  "list_all is_space '' '' \<and> CHR ''['' \<notin> set ''admin, mon'' \<and> CHR '']'' \<notin> set ''admin, mon''
   \<and> parse_view '' [admin, mon'' = Inr []
   \<and> (\<exists>r. key_of ''roles''
             (gen_settings_dict (Some ''ses6'') (default_kwargs\<lparr>roles := Some '' [admin, mon''\<rparr>))
            = Inr (Some (VRoles r)) \<and> view r = [])
   \<and> parse_view ''[storage]'' = Inr [[''storage'']]
   \<and> parse_view ''[storage], [admin, mon'' = Inr [[''storage'']]
   \<and> (\<exists>r. key_of ''roles''
             (gen_settings_dict (Some ''ses6'') (default_kwargs\<lparr>roles := Some ''[storage], [admin, mon''\<rparr>))
            = Inr (Some (VRoles r)) \<and> view r = [[''storage'']])
   \<and> parse_view ''mon'' = Inl AttributeError
   \<and> parse_view ''mon, [admin, mon'' = Inl AttributeError"
proof -
  have h1: "list_all is_space '' ''" by (simp add: is_space_def)
  have h2: "CHR ''['' \<notin> set ''admin, mon''" by simp
  have h3: "CHR '']'' \<notin> set ''admin, mon''" by simp
  have p: "parse_view ''[storage]'' = Inr [[''storage'']]" by code_simp
  have q: "parse_view ''mon'' = Inl AttributeError" by code_simp
  have a: "\<not> single_node (default_kwargs\<lparr>roles := Some '' [admin, mon''\<rparr>)"
    and b: "\<not> single_node (default_kwargs\<lparr>roles := Some ''[storage], [admin, mon''\<rparr>)"
    by (simp_all add: default_kwargs_def)
  show ?thesis
    using h1 h2 h3 p q a b
      unclosed_group_dropped [OF h1 h2 h3,
        of "default_kwargs\<lparr>roles := Some '' [admin, mon''\<rparr>" "Some ''ses6''"
           "''[storage]''" "[[''storage'']]" AttributeError]
      unclosed_group_dropped [OF h1 h2 h3,
        of "default_kwargs\<lparr>roles := Some ''[storage], [admin, mon''\<rparr>" "Some ''ses6''"
           "''[storage]''" "[[''storage'']]" AttributeError]
      unclosed_group_dropped [OF h1 h2 h3,
        of "default_kwargs\<lparr>roles := Some ''[storage], [admin, mon''\<rparr>" "Some ''ses6''"
           "''mon''" "[[''storage'']]" AttributeError]
    by simp
qed


section \<open>Whitespace next to a bracket\<close>

text \<open>
  C7: the parser strips each comma-separated fragment and then removes the brackets, so
  whitespace between a bracket and its role stays in the role, while whitespace next to a
  comma is removed.
\<close>

theorem bracket_whitespace_kept:
  "parse_view ''[ admin]'' = Inr [['' admin'']]
   \<and> parse_view ''[admin ]'' = Inr [[''admin '']]
   \<and> parse_view ''[admin , mon]'' = Inr [[''admin'', ''mon'']]"
  by code_simp

section \<open>Parsing the canonical text\<close>

subsection \<open>Tokens without surrounding whitespace\<close>

lemma trimmed_ends:
  assumes "strip t = t" and "t \<noteq> []"
  shows "\<not> is_space (hd t)" and "\<not> is_space (last t)"
  using strip_ends [of t] assms by auto

lemma strip_open_token:
  assumes "t = [] \<or> \<not> is_space (last t)"
  shows "strip (CHR ''['' # t) = CHR ''['' # t"
  using assms by (intro strip_fixed) auto

lemma strip_open_token_close:
  "strip (CHR ''['' # t @ '']'') = CHR ''['' # t @ '']''"
  by (intro strip_fixed) auto

lemma strip_blank_token:
  assumes "strip t = t"
  shows "strip (CHR '' '' # t) = t"
  using assms by (simp add: strip_space_Cons)

lemma strip_blank_token_close:
  assumes "strip t = t" and "t \<noteq> []"
  shows "strip (CHR '' '' # t @ '']'') = t @ '']''"
proof -
  have "strip (t @ '']'') = t @ '']''"
    using trimmed_ends [OF assms] assms(2) by (intro strip_fixed) auto
  then show ?thesis by (simp add: strip_space_Cons)
qed

lemma plain_token_ends:
  assumes "plain_token t"
  shows "t \<noteq> []" and "hd t \<noteq> CHR ''[''" and "last t \<noteq> CHR '']''" and "CHR '','' \<notin> set t"
  using assms by (auto simp: plain_token_def dest: hd_in_set last_in_set)

lemma plain_token_not_open: "plain_token t \<Longrightarrow> \<not> startswith_open (t @ r)"
  by (cases t) (auto simp: plain_token_def)

lemma plain_token_not_close: "plain_token t \<Longrightarrow> \<not> endswith_close (c # t)"
  using plain_token_ends [of t] by (auto simp: endswith_close_def)

subsection \<open>The fragments of a rendered role list\<close>

lemma join_Cons: "ts \<noteq> [] \<Longrightarrow> join sep (t # ts) = t @ sep @ join sep ts"
  by (cases ts) auto

lemma split_comma_append:
  "split_comma (a @ CHR '','' # b) = split_comma a @ split_comma b"
  by (simp add: split_comma_def split_from_comma)

lemma split_comma_join:
  "xs \<noteq> [] \<Longrightarrow> split_comma (join '','' xs) = concat (map split_comma xs)"
proof (induction xs rule: list_nonempty_induct)
  case (single x)
  then show ?case by simp
next
  case (cons x xs)
  then show ?case by (simp add: join_Cons split_comma_append)
qed

subsection \<open>Parsing one rendered node\<close>

text \<open>The roles after the first, up to the closing bracket.\<close>

lemma parse_loop_tail:
  assumes "ts \<noteq> []" and "\<forall>t \<in> set ts. plain_token t \<and> strip t = t"
    and "node st = Some a" and "a < length (store (obj st))"
  shows "parse_loop (split_from [] (CHR '' '' # join '', '' ts @ '']'')) st =
    Inr \<lparr>obj = \<lparr>store = (store (obj st))[a := store (obj st) ! a @ ts],
                refs = refs (obj st) @ [a]\<rparr>,
         node = Some a\<rparr>"
  using assms
proof (induction ts arbitrary: st rule: list_nonempty_induct)
  case (single t)
  then have p: "plain_token t" and s: "strip t = t" by auto
  have ne: "t \<noteq> []" using p by (rule plain_token_ends)
  have "CHR '','' \<notin> set (CHR '' '' # t @ '']'')"
    using plain_token_ends(4) [OF p] by simp
  then have sp: "split_from [] (CHR '' '' # t @ '']'') = [CHR '' '' # t @ '']'']"
    using split_from_no_comma [of "CHR '' '' # t @ '']''" "[]"] by simp
  have st: "strip (CHR '' '' # t @ '']'') = t @ '']''"
    using s ne by (rule strip_blank_token_close)
  have "parse_step (CHR '' '' # t @ '']'') st =
    Inr \<lparr>obj = \<lparr>store = (store (obj st))
                  [a := store (obj st) ! a @ [butlast (strip (CHR '' '' # t @ '']''))]],
                refs = refs (obj st) @ [a]\<rparr>,
         node = Some a\<rparr>"
    by (rule parse_step_close)
      (simp_all add: st plain_token_not_open [OF p] endswith_close_def single.prems)
  then have "parse_step (CHR '' '' # t @ '']'') st =
    Inr \<lparr>obj = \<lparr>store = (store (obj st))[a := store (obj st) ! a @ [t]],
                refs = refs (obj st) @ [a]\<rparr>,
         node = Some a\<rparr>"
    by (simp add: st)
  then show ?case using sp by simp
next
  case (cons t ts)
  then have p: "plain_token t" and s: "strip t = t" by auto
  have ne: "t \<noteq> []" using p by (rule plain_token_ends)
  have nc: "CHR '','' \<notin> set (CHR '' '' # t)"
    using plain_token_ends(4) [OF p] by simp
  have sp: "split_from [] (CHR '' '' # join '', '' (t # ts) @ '']'')
          = (CHR '' '' # t) # split_from [] (CHR '' '' # join '', '' ts @ '']'')"
    using split_from_token [OF nc, of "[]" "CHR '' '' # join '', '' ts @ '']''"] cons.hyps
    by (simp add: join_Cons)
  have stt: "strip (CHR '' '' # t) = t"
    using s by (rule strip_blank_token)
  let ?st = "\<lparr>obj = \<lparr>store = (store (obj st))[a := store (obj st) ! a @ [t]],
                refs = refs (obj st)\<rparr>, node = Some a\<rparr>"
  have "\<not> startswith_open t" using plain_token_not_open [OF p, of "[]"] by simp
  moreover have "\<not> endswith_close t"
    using plain_token_ends [OF p] by (simp add: endswith_close_def)
  ultimately have step: "parse_step (CHR '' '' # t) st = Inr ?st"
    using parse_step_plain [of "CHR '' '' # t" st a] cons.prems(2) by (simp add: stt)
  have "parse_loop (split_from [] (CHR '' '' # join '', '' ts @ '']'')) ?st =
    Inr \<lparr>obj = \<lparr>store = (store (obj ?st))[a := store (obj ?st) ! a @ ts],
                refs = refs (obj ?st) @ [a]\<rparr>,
         node = Some a\<rparr>"
    using cons.prems by (intro cons.IH) auto
  then show ?case using sp step cons.prems(3) by simp
qed

lemma parse_loop_node:
  assumes "ts \<noteq> []" and "\<forall>t \<in> set ts. plain_token t \<and> strip t = t"
  shows "parse_loop (split_comma (render_node ts)) st =
    Inr \<lparr>obj = \<lparr>store = store (obj st) @ [ts],
                refs = refs (obj st) @ [length (store (obj st))]\<rparr>,
         node = Some (length (store (obj st)))\<rparr>"
proof (cases ts)
  case Nil
  with assms(1) show ?thesis by simp
next
  case (Cons t us)
  with assms(2) have p: "plain_token t" and s: "strip t = t" by auto
  have ne: "t \<noteq> []" using p by (rule plain_token_ends)
  show ?thesis
  proof (cases "us = []")
    case True
    have "CHR '','' \<notin> set (CHR ''['' # t @ '']'')"
      using plain_token_ends(4) [OF p] by simp
    then have sp: "split_comma (render_node ts) = [CHR ''['' # t @ '']'']"
      using split_from_no_comma [of "CHR ''['' # t @ '']''" "[]"]
      by (simp add: split_comma_def render_node_def Cons True)
    have "parse_step (CHR ''['' # t @ '']'') st =
      Inr \<lparr>obj = \<lparr>store = store (obj st) @ [[tl (butlast (strip (CHR ''['' # t @ '']'')))]],
                refs = refs (obj st) @ [length (store (obj st))]\<rparr>,
           node = Some (length (store (obj st)))\<rparr>"
      by (rule parse_step_open_close)
        (simp_all add: strip_open_token_close endswith_close_def)
    then show ?thesis
      using sp by (simp add: strip_open_token_close Cons True butlast_append)
  next
    case False
    have nc: "CHR '','' \<notin> set (CHR ''['' # t)"
      using plain_token_ends(4) [OF p] by simp
    have sp: "split_comma (render_node ts)
          = (CHR ''['' # t) # split_from [] (CHR '' '' # join '', '' us @ '']'')"
      using split_from_token [OF nc, of "[]" "CHR '' '' # join '', '' us @ '']''"] False
      by (simp add: split_comma_def render_node_def Cons join_Cons)
    have so: "strip (CHR ''['' # t) = CHR ''['' # t"
      using trimmed_ends(2) [OF s ne] by (intro strip_open_token) simp
    let ?n = "length (store (obj st))"
    let ?st = "\<lparr>obj = \<lparr>store = store (obj st) @ [[t]], refs = refs (obj st)\<rparr>,
                node = Some ?n\<rparr>"
    have "parse_step (CHR ''['' # t) st =
      Inr \<lparr>obj = \<lparr>store = store (obj st) @ [[tl (strip (CHR ''['' # t))]],
                refs = refs (obj st)\<rparr>,
           node = Some ?n\<rparr>"
      by (rule parse_step_open) (simp_all add: so plain_token_not_close [OF p])
    then have step: "parse_step (CHR ''['' # t) st = Inr ?st" by (simp add: so)
    have "parse_loop (split_from [] (CHR '' '' # join '', '' us @ '']'')) ?st =
      Inr \<lparr>obj = \<lparr>store = (store (obj ?st))[?n := store (obj ?st) ! ?n @ us],
                  refs = refs (obj ?st) @ [?n]\<rparr>,
           node = Some ?n\<rparr>"
      using False assms(2) by (intro parse_loop_tail) (auto simp: Cons)
    then show ?thesis using sp step by (simp add: Cons)
  qed
qed

subsection \<open>Parsing a rendered role list\<close>

lemma parse_loop_nodes:
  assumes "\<forall>ts \<in> set rl. ts \<noteq> [] \<and> (\<forall>t \<in> set ts. plain_token t \<and> strip t = t)"
  shows "\<exists>st'. parse_loop (concat (map (\<lambda>ts. split_comma (render_node ts)) rl)) st = Inr st'
    \<and> obj st' = \<lparr>store = store (obj st) @ rl,
                  refs = refs (obj st)
                    @ [length (store (obj st)) ..< length (store (obj st)) + length rl]\<rparr>"
  using assms
proof (induction rl arbitrary: st)
  case Nil
  then show ?case by simp
next
  case (Cons ts rl)
  let ?n = "length (store (obj st))"
  let ?st = "\<lparr>obj = \<lparr>store = store (obj st) @ [ts], refs = refs (obj st) @ [?n]\<rparr>,
              node = Some ?n\<rparr>"
  have n: "parse_loop (split_comma (render_node ts)) st = Inr ?st"
    using Cons.prems by (intro parse_loop_node) auto
  from Cons.IH [of ?st] Cons.prems obtain st'
    where l: "parse_loop (concat (map (\<lambda>ts. split_comma (render_node ts)) rl)) ?st = Inr st'"
      and o: "obj st' = \<lparr>store = store (obj ?st) @ rl,
                refs = refs (obj ?st) @ [length (store (obj ?st)) ..< length (store (obj ?st)) + length rl]\<rparr>"
    by auto
  show ?case
  proof (intro exI conjI)
    show "parse_loop (concat (map (\<lambda>ts. split_comma (render_node ts)) (ts # rl))) st = Inr st'"
      using n l by (simp add: parse_loop_append)
    show "obj st' = \<lparr>store = store (obj st) @ ts # rl,
                  refs = refs (obj st) @ [?n ..< ?n + length (ts # rl)]\<rparr>"
      using o by (simp add: upt_conv_Cons del: upt_Suc)
  qed
qed

text \<open>
  C8, as stated, fails in two ways. The empty role list renders to the empty string, on
  which the parser raises; and a role with leading or trailing whitespace, which the claim
  admits, does not come back: the parser strips it.
\<close>

theorem parse_render_counterexample:
  "parse_view (render []) = Inl AttributeError
   \<and> plain_token ''a'' \<and> plain_token '' b''
   \<and> parse_view (render [[''a'', '' b'']]) = Inr [[''a'', ''b'']]"
  by code_simp

text \<open>
  C8, amended: parsing is a left inverse of the canonical renderer on every role list that
  has at least one node, whose nodes each have at least one role, and whose roles are not
  empty, contain no bracket and no comma, and have no leading or trailing whitespace.
\<close>

theorem parse_render_roundtrip:
  assumes "rl \<noteq> []"
    and "\<forall>ts \<in> set rl. ts \<noteq> [] \<and> (\<forall>t \<in> set ts. plain_token t \<and> strip t = t)"
  shows "parse_view (render rl) = Inr rl"
proof -
  have sp: "split_comma (render rl) = concat (map (\<lambda>ts. split_comma (render_node ts)) rl)"
    using assms(1) by (simp add: render_def split_comma_join comp_def)
  from parse_loop_nodes [OF assms(2), of init_pstate] obtain st'
    where l: "parse_loop (concat (map (\<lambda>ts. split_comma (render_node ts)) rl)) init_pstate = Inr st'"
      and o: "obj st' = \<lparr>store = rl, refs = [0 ..< length rl]\<rparr>"
    by (auto simp: init_pstate_def)
  have "view (obj st') = rl"
    by (simp add: o view_def map_nth)
  then show ?thesis
    using l by (simp add: parse_view_def parse_roles_def sp)
qed

theorem parse_render_roundtrip_witness:
  "[[''admin'', ''mon'', ''mgr''], [''storage'']] \<noteq> []
   \<and> list_all (\<lambda>ts. ts \<noteq> [] \<and> list_all (\<lambda>t. plain_token t \<and> strip t = t) ts)
         [[''admin'', ''mon'', ''mgr''], [''storage'']]
   \<and> render [[''admin'', ''mon'', ''mgr''], [''storage'']] = ''[admin, mon, mgr],[storage]''
   \<and> parse_view ''[admin, mon, mgr],[storage]'' = Inr [[''admin'', ''mon'', ''mgr''], [''storage'']]"
proof -
  let ?rl = "[[''admin'', ''mon'', ''mgr''], [''storage'']]"
  have h1: "?rl \<noteq> []" by simp
  have h2: "\<forall>ts \<in> set ?rl. ts \<noteq> [] \<and> (\<forall>t \<in> set ts. plain_token t \<and> strip t = t)"
    by (simp add: plain_token_def strip_def is_space_def)
  have r: "render ?rl = ''[admin, mon, mgr],[storage]''"
    by (simp add: render_def render_node_def)
  show ?thesis
    using h1 h2 r parse_render_roundtrip [OF h1 h2] by (simp add: list_all_iff)
qed

end
